theory Spec2Isabelle
  imports Main "HOL-Library.Word"
begin

unbundle bit_operations_syntax

section \<open>Hardware video-encode session orchestrator (video\_encoder\_vulkan.cpp)\<close>

text \<open>
  A shallow embedding of \<^verbatim>\<open>src/server/encoder/video_encoder_vulkan.cpp\<close>.
  Machine integers are words of the width the C++ gives them: \<^verbatim>\<open>uint32_t\<close> is
  \<open>32 word\<close>, \<^verbatim>\<open>uint64_t\<close> and \<^verbatim>\<open>VkDeviceSize\<close> are \<open>64 word\<close>; the
  \<^verbatim>\<open>int32_t\<close> slot index of a reference slot is a \<open>32 word\<close> too, in two's
  complement, so that \<open>- 1\<close> is the word of all ones (the code only assigns it
  and compares it with \<open>-1\<close>). Device calls are inputs of the functions that
  make them.
\<close>

subsection \<open>align\<close>

text \<open>
  \<^verbatim>\<open>static uint32_t align(uint32_t value, uint32_t alignment)\<close>: every operation
  is on \<^verbatim>\<open>uint32_t\<close>, so \<open>value - 1\<close>, the sum and the product wrap modulo \<open>2 ^ 32\<close>.
\<close>

definition align :: "32 word \<Rightarrow> 32 word \<Rightarrow> 32 word" where
  "align val alignment =
     (if alignment = 0 then val
      else alignment * (1 + (val - 1) div alignment))"

text \<open>
  The output buffer of \<^verbatim>\<open>init\<close>: the product of the \<^verbatim>\<open>uint32_t\<close> extent fields
  and 3 is taken in \<^verbatim>\<open>uint32_t\<close>; \<^verbatim>\<open>minBitstreamBufferSizeAlignment\<close> is a
  64-bit \<^verbatim>\<open>VkDeviceSize\<close>, converted to the \<^verbatim>\<open>uint32_t\<close> parameter of \<^verbatim>\<open>align\<close>.
\<close>

definition output_buffer_size :: "32 word \<Rightarrow> 32 word \<Rightarrow> 64 word \<Rightarrow> 32 word" where
  "output_buffer_size width height minBitstreamBufferSizeAlignment =
     align (width * height * 3) (ucast minBitstreamBufferSizeAlignment)"

subsection \<open>Capability negotiation: patch\_capabilities and the constructor\<close>

text \<open>
  \<^verbatim>\<open>VkVideoEncodeRateControlModeFlagBitsKHR\<close>: DEFAULT is 0, DISABLED is bit 0,
  CBR is bit 1, VBR is bit 2.
\<close>

definition eDefault :: "32 word" where "eDefault = 0"
definition eDisabled :: "32 word" where "eDisabled = 1"
definition eCbr :: "32 word" where "eCbr = 2"
definition eVbr :: "32 word" where "eVbr = 4"

record VideoEncodeCapabilitiesKHR =
  rateControlModes :: "32 word"
  maxBitrate :: "64 word"

record VideoEncodeRateControlLayerInfoKHR =
  averageBitrate :: "64 word"
  layer_maxBitrate :: "64 word"
  frameRateNumerator :: "32 word"
  frameRateDenominator :: "32 word"

record VideoEncodeRateControlInfoKHR =
  rateControlMode :: "32 word"
  layerCount :: "32 word"
  virtualBufferSizeInMs :: "32 word"
  initialVirtualBufferSizeInMs :: "32 word"

text \<open>What the constructor leaves in the members it initialises.\<close>

record rate_control_state =
  encode_caps :: VideoEncodeCapabilitiesKHR
  rate_control_layer :: VideoEncodeRateControlLayerInfoKHR
  rate_control :: "VideoEncodeRateControlInfoKHR option"

definition patch_capabilities :: "VideoEncodeCapabilitiesKHR \<Rightarrow> VideoEncodeCapabilitiesKHR" where
  "patch_capabilities caps =
     (if rateControlModes caps AND (eCbr OR eVbr) \<noteq> 0 \<and> maxBitrate caps = 0
      then caps\<lparr>rateControlModes := eDefault\<rparr>
      else caps)"

text \<open>
  The constructor. \<open>fps_micro\<close> stands for \<^verbatim>\<open>uint32_t(fps * 1'000'000)\<close>, a
  floating-point product that is not embedded. The two statements that build
  \<^verbatim>\<open>rate_control_layer\<close> and \<^verbatim>\<open>rate_control\<close> come first, then the branch on
  the advertised modes; \<^verbatim>\<open>rate_control.reset()\<close> is \<open>None\<close>. \<open>2 * bitrate\<close> is a
  \<^verbatim>\<open>uint64_t\<close> product.
\<close>

definition video_encoder_vulkan ::
  "VideoEncodeCapabilitiesKHR \<Rightarrow> 32 word \<Rightarrow> 64 word \<Rightarrow> rate_control_state" where
  "video_encoder_vulkan in_encode_caps fps_micro bitrate =
     (let caps = patch_capabilities in_encode_caps;
          layer = \<lparr>averageBitrate = min bitrate (maxBitrate caps),
                   layer_maxBitrate = min (2 * bitrate) (maxBitrate caps),
                   frameRateNumerator = fps_micro,
                   frameRateDenominator = 1000000\<rparr>;
          rc = \<lparr>rateControlMode = eDefault,
                layerCount = 1,
                virtualBufferSizeInMs = 5000,
                initialVirtualBufferSizeInMs = 4000\<rparr>
      in if rateControlModes caps AND eCbr \<noteq> 0
         then \<lparr>encode_caps = caps,
               rate_control_layer = layer\<lparr>layer_maxBitrate := averageBitrate layer\<rparr>,
               rate_control = Some (rc\<lparr>rateControlMode := eCbr\<rparr>)\<rparr>
         else if rateControlModes caps AND eVbr \<noteq> 0
         then \<lparr>encode_caps = caps,
               rate_control_layer = layer,
               rate_control = Some (rc\<lparr>rateControlMode := eVbr\<rparr>)\<rparr>
         else \<lparr>encode_caps = caps,
               rate_control_layer = layer,
               rate_control = None\<rparr>)"

subsection \<open>The decoded picture buffer and the encoder state\<close>

text \<open>
  \<^verbatim>\<open>VkVideoReferenceSlotInfoKHR\<close> has an \<^verbatim>\<open>int32_t slotIndex\<close> (\<open>-1\<close>: not
  registered with the device) and a pointer \<^verbatim>\<open>pPictureResource\<close>, which the
  code sets to \<^verbatim>\<open>nullptr\<close> (\<open>None\<close>) or to the \<^verbatim>\<open>resource\<close> member of an
  item of \<^verbatim>\<open>dpb\<close> (\<open>Some\<close> of that item's position). A \<^verbatim>\<open>dpb_item\<close> also has
  the frame index it holds, a \<^verbatim>\<open>uint64_t\<close> as the \<^verbatim>\<open>frame_index\<close> parameter
  of \<^verbatim>\<open>present_image\<close> is; the code writes \<open>-1\<close> there for a free slot.
  Image views, fences, the output buffer and the recorded command buffer are
  left out: no statement below reads them.
\<close>

record VideoReferenceSlotInfoKHR =
  slotIndex :: "32 word"
  pPictureResource :: "nat option"

record dpb_item =
  info :: VideoReferenceSlotInfoKHR
  frame_index :: "64 word"

record encoder =
  dpb :: "dpb_item list"
  frame_num :: "32 word"
  last_ack :: "64 word"
  session_initialized :: bool

text \<open>
  Modelled from the spec: the member declarations of the class are in
  \<^verbatim>\<open>video_encoder_vulkan.h\<close>, which is not among the sources. The spec gives
  a ring of \<^verbatim>\<open>num_dpb_slots\<close> reference slots, each starting free (the sentinel
  occupancy, which the code writes as \<open>-1\<close>) and unregistered (\<^verbatim>\<open>init\<close> sets
  \<^verbatim>\<open>slotIndex = -1\<close> and \<^verbatim>\<open>pPictureResource = nullptr\<close>), a submission counter
  starting at 0 and a last acknowledged frame index starting at "none
  acknowledged". The number of slots and the initial value of \<^verbatim>\<open>last_ack\<close>
  are parameters; the counter \<^verbatim>\<open>frame_num\<close> is taken as a \<^verbatim>\<open>uint32_t\<close> and
  \<^verbatim>\<open>last_ack\<close> as a \<^verbatim>\<open>uint64_t\<close>, the type of the frame indices it is
  compared with.
\<close>

definition free_item :: dpb_item where
  "free_item = \<lparr>info = \<lparr>slotIndex = - 1, pPictureResource = None\<rparr>, frame_index = - 1\<rparr>"

definition initial_encoder :: "nat \<Rightarrow> 64 word \<Rightarrow> encoder" where
  "initial_encoder num_dpb_slots ack0 =
     \<lparr>dpb = replicate num_dpb_slots free_item,
      frame_num = 0,
      last_ack = ack0,
      session_initialized = False\<rparr>"

subsection \<open>Feedback: on\_feedback\<close>

text \<open>
  \<^verbatim>\<open>last_ack\<close> is a \<^verbatim>\<open>std::atomic\<close> holding a frame index.
  \<^verbatim>\<open>compare_exchange_weak(prev, desired)\<close> compares the stored value with
  \<open>prev\<close>. When they are equal it may store \<open>desired\<close> and return true; when
  they differ, and also when it fails spuriously (which C++ allows the weak
  form to do even if they are equal), it loads the stored value into \<open>prev\<close>
  and returns false. Whether an attempt fails spuriously is an input. The
  result is (returned flag, stored value, \<open>prev\<close>).
\<close>

record feedback =
  feedback_frame_index :: "64 word"
  sent_to_decoder :: bool

definition compare_exchange_weak ::
  "bool \<Rightarrow> 64 word \<Rightarrow> 64 word \<Rightarrow> 64 word \<Rightarrow> bool \<times> 64 word \<times> 64 word" where
  "compare_exchange_weak spurious stored prev desired =
     (if stored = prev \<and> \<not> spurious then (True, desired, prev) else (False, stored, stored))"

text \<open>
  The loop \<^verbatim>\<open>while (prev < feedback.frame_index and last_ack.compare_exchange_weak(prev, feedback.frame_index)) {}\<close>:
  it goes round again while the exchange succeeds and leaves when it fails.
  \<open>spurious\<close> lists, for the successive attempts, whether the attempt fails
  spuriously (none does once the list is used up); \<open>stored\<close> is the value of
  \<^verbatim>\<open>last_ack\<close> and the loop returns its final value.
\<close>

function feedback_loop :: "bool list \<Rightarrow> 64 word \<Rightarrow> 64 word \<Rightarrow> 64 word \<Rightarrow> 64 word" where
  "feedback_loop spurious fi stored prev =
     (if prev < fi
      then (case compare_exchange_weak (case spurious of [] \<Rightarrow> False | b # _ \<Rightarrow> b)
                   stored prev fi of
              (ok, stored', prev') \<Rightarrow>
                if ok then feedback_loop (drop 1 spurious) fi stored' prev' else stored')
      else stored)"
  by pat_completeness auto
termination
  by (relation "measure (\<lambda>(spurious, fi, stored, prev). if stored = prev then 1 else 0)")
     (auto simp: compare_exchange_weak_def split: if_splits)

declare feedback_loop.simps [simp del]

text \<open>
  \<^verbatim>\<open>on_feedback\<close>: \<^verbatim>\<open>prev = last_ack.load()\<close>, then the loop. One call runs
  at a time, so the loop starts with \<open>prev\<close> equal to the stored value.
\<close>

definition on_feedback :: "bool list \<Rightarrow> feedback \<Rightarrow> encoder \<Rightarrow> encoder" where
  "on_feedback spurious fb s =
     (if sent_to_decoder fb
      then s\<lparr>last_ack :=
               feedback_loop spurious (feedback_frame_index fb) (last_ack s) (last_ack s)\<rparr>
      else s)"

subsection \<open>Frame submission: present\_image\<close>

text \<open>
  \<^verbatim>\<open>std::ranges::min_element\<close>: the position of the first element that no other
  element is smaller than under the comparison; the end position (here 0, the
  length) on an empty range. It keeps the best position so far and moves to a
  later one only when that one compares smaller.
\<close>

definition min_element :: "('a \<Rightarrow> 'a \<Rightarrow> bool) \<Rightarrow> 'a list \<Rightarrow> nat" where
  "min_element cmp xs =
     fold (\<lambda>i best. if cmp (xs ! i) (xs ! best) then i else best) [1..<length xs] 0"

text \<open>The comparison of the source: \<^verbatim>\<open>a.frame_index + 1 < b.frame_index + 1\<close> on \<^verbatim>\<open>uint64_t\<close>.\<close>

definition frame_index_less :: "dpb_item \<Rightarrow> dpb_item \<Rightarrow> bool" where
  "frame_index_less a b \<longleftrightarrow> frame_index a + 1 < frame_index b + 1"

definition setup_slot :: "encoder \<Rightarrow> nat" where
  "setup_slot s = min_element frame_index_less (dpb s)"

text \<open>\<^verbatim>\<open>slot->info.slotIndex = -1\<close> on the chosen slot.\<close>

definition set_slotIndex :: "32 word \<Rightarrow> dpb_item \<Rightarrow> dpb_item" where
  "set_slotIndex v item = item\<lparr>info := (info item)\<lparr>slotIndex := v\<rparr>\<rparr>"

definition unregister_setup :: "encoder \<Rightarrow> encoder" where
  "unregister_setup s =
     s\<lparr>dpb := (dpb s)[setup_slot s := set_slotIndex (- 1) (dpb s ! setup_slot s)]\<rparr>"

text \<open>
  The first loop: the first position whose item holds \<open>last_ack\<close> and is
  registered; \<open>None\<close> is \<^verbatim>\<open>ref_slot == nullptr\<close>.
\<close>

function ack_scan :: "64 word \<Rightarrow> dpb_item list \<Rightarrow> nat \<Rightarrow> nat option" where
  "ack_scan ack d i =
     (if i < length d
      then (if frame_index (d ! i) = ack \<and> slotIndex (info (d ! i)) \<noteq> - 1
            then Some i
            else ack_scan ack d (Suc i))
      else None)"
  by pat_completeness auto
termination
  by (relation "measure (\<lambda>(ack, d, i). length d - i)") auto

text \<open>
  The second loop, under \<^verbatim>\<open>frame_num < 100 and not ref_slot\<close>. It compares
  the frame index of a registered item with the one of \<open>ref_slot\<close>, and leaves
  the loop (\<^verbatim>\<open>break\<close>) as soon as it has assigned \<open>ref_slot\<close>.
\<close>

function fallback_scan :: "dpb_item list \<Rightarrow> nat \<Rightarrow> nat option \<Rightarrow> nat option" where
  "fallback_scan d i ref =
     (if i < length d
      then (if slotIndex (info (d ! i)) \<noteq> - 1
            then (if ref = None \<or> frame_index (d ! the ref) < frame_index (d ! i)
                  then Some i
                  else fallback_scan d (Suc i) ref)
            else fallback_scan d (Suc i) ref)
      else ref)"
  by pat_completeness auto
termination
  by (relation "measure (\<lambda>(d, i, ref). length d - i)") auto

declare ack_scan.simps [simp del] fallback_scan.simps [simp del]

definition select_reference :: "encoder \<Rightarrow> nat option" where
  "select_reference s =
     (let ref = ack_scan (last_ack s) (dpb s) 0
      in if frame_num s < 100 \<and> ref = None then fallback_scan (dpb s) 0 ref else ref)"

text \<open>The body of \<^verbatim>\<open>if (not ref_slot)\<close>.\<close>

definition reset_item :: "dpb_item \<Rightarrow> dpb_item" where
  "reset_item item =
     item\<lparr>info := (info item)\<lparr>slotIndex := - 1, pPictureResource := None\<rparr>,
          frame_index := - 1\<rparr>"

definition full_reset :: "encoder \<Rightarrow> encoder" where
  "full_reset s = s\<lparr>frame_num := 0, dpb := map reset_item (dpb s)\<rparr>"

text \<open>
  What reaches the codec and the device from one submission: the arguments of
  \<^verbatim>\<open>encode_info_next\<close> (frame number, position of the setup slot, the slot
  index of the reference if there is one) and the position of the item
  \<open>ref_slot\<close> points to.
\<close>

record submission =
  enc_frame_num :: "32 word"
  slot_index :: nat
  ref_slotIndex :: "32 word option"
  ref_slot :: "nat option"

text \<open>
  The rest of \<^verbatim>\<open>present_image\<close>, from \<^verbatim>\<open>slot->frame_index = frame_index\<close> on:
  the setup slot takes the frame and its picture resource, then its position as
  slot index (\<^verbatim>\<open>size_t\<close> to \<^verbatim>\<open>int32_t\<close>), the session is marked initialised, the
  encode is recorded and the counter is incremented.
\<close>

definition record_submission ::
  "64 word \<Rightarrow> nat \<Rightarrow> nat option \<Rightarrow> encoder \<Rightarrow> encoder \<times> submission" where
  "record_submission fidx k ref s =
     (let d = (dpb s)[k := (dpb s ! k)\<lparr>frame_index := fidx,
                           info := (info (dpb s ! k))\<lparr>pPictureResource := Some k\<rparr>\<rparr>];
          d' = d[k := set_slotIndex (of_nat k) (d ! k)]
      in (s\<lparr>dpb := d', session_initialized := True, frame_num := frame_num s + 1\<rparr>,
          \<lparr>enc_frame_num = frame_num s,
           slot_index = k,
           ref_slotIndex = map_option (\<lambda>i. slotIndex (info (d' ! i))) ref,
           ref_slot = ref\<rparr>))"

text \<open>
  \<^verbatim>\<open>present_image\<close>. On an empty \<^verbatim>\<open>dpb\<close> \<^verbatim>\<open>min_element\<close> returns the end
  iterator, which the code dereferences: undefined behaviour, \<open>None\<close> here.
\<close>

definition present_image :: "64 word \<Rightarrow> encoder \<Rightarrow> (encoder \<times> submission) option" where
  "present_image fidx s =
     (if dpb s = [] then None
      else let k = setup_slot s;
               s1 = unregister_setup s;
               ref = select_reference s1;
               s2 = (if ref = None then full_reset s1 else s1)
           in Some (record_submission fidx k ref s2))"

text \<open>
  The states the encoder reaches: from the initial state, by feedback events
  and by submissions of frames with increasing indices. \<open>run n fs s\<close>: \<open>s\<close> is
  reached with \<open>n\<close> slots after the frames \<open>fs\<close> (latest first) were submitted.
\<close>

inductive run :: "nat \<Rightarrow> 64 word list \<Rightarrow> encoder \<Rightarrow> bool" where
  run_initial: "run n [] (initial_encoder n ack0)"
| run_feedback: "run n fs s \<Longrightarrow> run n fs (on_feedback spurious fb s)"
| run_present:
    "run n fs s \<Longrightarrow> \<forall>g \<in> set fs. g < f \<Longrightarrow> present_image f s = Some (s', c)
     \<Longrightarrow> run n (f # fs) s'"

text \<open>
  The order the spec gives for step 3: a free slot is older than a slot that
  holds a frame, and of two slots that hold frames the one with the smaller
  frame index is older.
\<close>

definition less_recent :: "dpb_item \<Rightarrow> dpb_item \<Rightarrow> bool" where
  "less_recent a b \<longleftrightarrow>
     (frame_index a = - 1 \<and> frame_index b \<noteq> - 1)
     \<or> (frame_index a \<noteq> - 1 \<and> frame_index b \<noteq> - 1 \<and> frame_index a < frame_index b)"

subsection \<open>Retrieving the result: encode\<close>

text \<open>
  The device is an input: \<open>wait_res\<close> is what \<^verbatim>\<open>waitForFences\<close> returns,
  \<open>query_res\<close> and the three \<^verbatim>\<open>uint32_t\<close> feedback values (offset, size, has
  overrides) are what \<^verbatim>\<open>getResults\<close> returns. The result has the effects
  (whether \<^verbatim>\<open>send_idr_data\<close> ran, the lines written to \<^verbatim>\<open>std::cerr\<close>) and
  the outcome: the exception thrown or the span returned.
\<close>

datatype vk_result = eSuccess | eNotReady | eTimeout | eErrorDeviceLost

fun to_string :: "vk_result \<Rightarrow> string" where
  "to_string eSuccess = ''Success''"
| "to_string eNotReady = ''NotReady''"
| "to_string eTimeout = ''Timeout''"
| "to_string eErrorDeviceLost = ''ErrorDeviceLost''"

datatype error = runtime_error string

record data =
  span_offset :: "32 word"
  span_size :: "32 word"

record encode_effects =
  idr_data_sent :: bool
  cerr :: "string list"
  outcome :: "error + data"

definition encode ::
  "bool \<Rightarrow> vk_result \<Rightarrow> vk_result \<times> 32 word \<times> 32 word \<times> 32 word \<Rightarrow> encode_effects" where
  "encode idr wait_res query =
     (if wait_res \<noteq> eSuccess
      then \<lparr>idr_data_sent = idr, cerr = [],
            outcome = Inl (runtime_error (''wait for fences: '' @ to_string wait_res))\<rparr>
      else case query of (res, offset, sz, overrides) \<Rightarrow>
        \<lparr>idr_data_sent = idr,
         cerr = (if res \<noteq> eSuccess
                 then [''device.getQueryPoolResults: '' @ to_string res] else []),
         outcome = Inr \<lparr>span_offset = offset, span_size = sz\<rparr>\<rparr>)"

subsection \<open>An example state\<close>

text \<open>
  Three slots after the frames 1 and 2 were submitted: slot 0 holds frame 1,
  slot 1 holds frame 2, slot 2 is free. The counter and the last acknowledged
  frame index are parameters.
\<close>

abbreviation three_slots :: "32 word \<Rightarrow> 64 word \<Rightarrow> encoder" where
  "three_slots n a \<equiv>
     \<lparr>dpb = [\<lparr>info = \<lparr>slotIndex = 0, pPictureResource = Some 0\<rparr>, frame_index = 1\<rparr>,
             \<lparr>info = \<lparr>slotIndex = 1, pPictureResource = Some 1\<rparr>, frame_index = 2\<rparr>,
             \<lparr>info = \<lparr>slotIndex = - 1, pPictureResource = None\<rparr>, frame_index = - 1\<rparr>],
      frame_num = n, last_ack = a, session_initialized = True\<rparr>"

section \<open>Output buffer size\<close>

lemma round_up_nat:
  fixes n a :: nat
  assumes "0 < n" "0 < a"
  shows "n \<le> a * (1 + (n - 1) div a)"
    and "a dvd m \<Longrightarrow> n \<le> m \<Longrightarrow> a * (1 + (n - 1) div a) \<le> m"
proof -
  have "n - 1 < a * (1 + (n - 1) div a)"
    using assms(2) by (metis dividend_less_times_div mult_Suc_right plus_1_eq_Suc)
  then show "n \<le> a * (1 + (n - 1) div a)" using assms(1) by linarith
next
  assume d: "a dvd m" and le: "n \<le> m"
  then obtain k where k: "m = a * k" by (auto simp: dvd_def)
  have "a * ((n - 1) div a) \<le> n - 1" by simp
  then have "a * ((n - 1) div a) < a * k" using le k assms(1) by linarith
  then have "(n - 1) div a < k" using assms(2) by simp
  then have "1 + (n - 1) div a \<le> k" by simp
  then have "a * (1 + (n - 1) div a) \<le> a * k" by (rule mult_le_mono2)
  then show "a * (1 + (n - 1) div a) \<le> m" using k by simp
qed

lemma unat_ucast_64_32: "unat a < 2 ^ 32 \<Longrightarrow> unat (ucast (a::64 word) :: 32 word) = unat a"
  by (simp add: unsigned_ucast_eq take_bit_nat_eq_self)

lemma unat_align:
  fixes v a :: "32 word"
  assumes "v \<noteq> 0" "a \<noteq> 0" "unat a * (1 + (unat v - 1) div unat a) < 2 ^ 32"
  shows "unat (align v a) = unat a * (1 + (unat v - 1) div unat a)"
proof -
  have a0: "0 < unat a" using assms(2) by (simp add: unat_gt_0)
  have q: "unat ((v - 1) div a) = (unat v - 1) div unat a"
    using assms(1) by (simp add: unat_div unat_minus_one)
  have "1 * (1 + (unat v - 1) div unat a) \<le> unat a * (1 + (unat v - 1) div unat a)"
    using a0 by (intro mult_le_mono1) simp
  then have "unat (1::32 word) + unat ((v - 1) div a) < 2 ^ LENGTH(32)"
    using assms(3) by (simp add: q)
  then have q1: "unat (1 + (v - 1) div a) = 1 + (unat v - 1) div unat a"
    by (simp only: unat_add_lem [THEN iffD1] q) simp
  have "unat a * unat (1 + (v - 1) div a) < 2 ^ LENGTH(32)"
    using assms(3) by (simp add: q1)
  then have "unat (a * (1 + (v - 1) div a)) = unat a * unat (1 + (v - 1) div a)"
    by (simp only: unat_mult_lem [THEN iffD1])
  then show ?thesis using assms(2) by (simp add: align_def q1)
qed

lemma unat_area:
  fixes w h :: "32 word"
  assumes "3 * unat w * unat h < 2 ^ 32"
  shows "unat (w * h * 3) = 3 * unat w * unat h"
proof -
  have "unat w * unat h \<le> 3 * unat w * unat h" by simp
  then have "unat w * unat h < 2 ^ LENGTH(32)" using assms by simp
  then have wh: "unat (w * h) = unat w * unat h" by (simp only: unat_mult_lem [THEN iffD1])
  have "unat (w * h) * unat (3::32 word) = 3 * unat w * unat h" by (simp only: wh) simp
  then have "unat (w * h) * unat (3::32 word) < 2 ^ LENGTH(32)" using assms by simp
  then have "unat (w * h * 3) = unat (w * h) * unat (3::32 word)"
    by (simp only: unat_mult_lem [THEN iffD1])
  then show ?thesis by (simp add: wh)
qed

text \<open>
  C9, as stated, fails: the product \<open>width * height * 3\<close> is taken modulo \<open>2 ^ 32\<close>.
  For a rectangle of 65536 by 65536 and alignment 0 the computed size is 0,
  below three bytes per pixel.
\<close>

theorem output_buffer_size_counterexample:
  "unat (output_buffer_size 65536 65536 0) < 3 * unat (65536 :: 32 word) * unat (65536 :: 32 word)"
  by (simp add: output_buffer_size_def align_def)

text \<open>
  C9, amended: for a rectangle with width and height at least 1 whose
  \<open>3 * width * height\<close> is below \<open>2 ^ 32\<close>, and an alignment below \<open>2 ^ 32\<close>
  with some multiple at or above \<open>3 * width * height\<close> that is below \<open>2 ^ 32\<close>,
  the output buffer size is at least \<open>3 * width * height\<close>; it is
  \<open>3 * width * height\<close> itself when the alignment is 0, and otherwise the
  smallest multiple of the alignment that is at least \<open>3 * width * height\<close>.
\<close>

theorem output_buffer_size_rounds_up:
  fixes width height :: "32 word" and alignment :: "64 word"
  assumes "1 \<le> unat width" and "1 \<le> unat height"
    and "3 * unat width * unat height < 2 ^ 32"
    and "unat alignment < 2 ^ 32"
    and "alignment \<noteq> 0 \<Longrightarrow>
           \<exists>m < 2 ^ 32. unat alignment dvd m \<and> 3 * unat width * unat height \<le> m"
  shows "3 * unat width * unat height \<le> unat (output_buffer_size width height alignment)
       \<and> (alignment = 0 \<longrightarrow>
            unat (output_buffer_size width height alignment) = 3 * unat width * unat height)
       \<and> (alignment \<noteq> 0 \<longrightarrow>
            unat alignment dvd unat (output_buffer_size width height alignment)
            \<and> (\<forall>m. unat alignment dvd m \<and> 3 * unat width * unat height \<le> m
                  \<longrightarrow> unat (output_buffer_size width height alignment) \<le> m))"
proof (cases "alignment = 0")
  case True
  then show ?thesis using assms(3) by (simp add: output_buffer_size_def align_def unat_area)
next
  case False
  let ?n = "3 * unat width * unat height"
  let ?a = "unat alignment"
  have n0: "0 < ?n" using assms(1,2) by simp
  have a0: "0 < ?a" using False by (simp add: unat_gt_0)
  have v: "unat (width * height * 3) = ?n" using assms(3) by (rule unat_area)
  have v0: "width * height * 3 \<noteq> 0" using v n0 by (metis less_numeral_extra(3) unat_0)
  have ua: "unat (ucast alignment :: 32 word) = ?a" using assms(4) by (rule unat_ucast_64_32)
  have ca0: "(ucast alignment :: 32 word) \<noteq> 0" using ua a0 by (metis less_numeral_extra(3) unat_0)
  obtain m where m: "m < 2 ^ 32" "?a dvd m" "?n \<le> m" using assms(5) False by blast
  have fit: "?a * (1 + (?n - 1) div ?a) < 2 ^ 32"
    using round_up_nat(2) [OF n0 a0 m(2) m(3)] m(1) by linarith
  have r: "unat (output_buffer_size width height alignment) = ?a * (1 + (?n - 1) div ?a)"
    unfolding output_buffer_size_def using unat_align [OF v0 ca0] fit by (simp only: ua v)
  show ?thesis
    unfolding r using False round_up_nat [OF n0 a0] by simp
qed

theorem output_buffer_size_rounds_up_witness:
  "1 \<le> unat (1920 :: 32 word) \<and> 1 \<le> unat (1080 :: 32 word)
   \<and> 3 * unat (1920 :: 32 word) * unat (1080 :: 32 word) < 2 ^ 32
   \<and> unat (256 :: 64 word) < 2 ^ 32
   \<and> unat (256 :: 64 word) dvd (6220800 :: nat)
   \<and> unat (output_buffer_size 1920 1080 256) = 6220800
   \<and> 3 * unat (1920 :: 32 word) * unat (1080 :: 32 word) \<le> unat (output_buffer_size 1920 1080 256)"
proof -
  have e: "\<exists>m < 2 ^ 32. unat (256 :: 64 word) dvd m
             \<and> 3 * unat (1920 :: 32 word) * unat (1080 :: 32 word) \<le> m"
    by (rule exI [of _ "6220800"]) simp
  have "3 * unat (1920 :: 32 word) * unat (1080 :: 32 word)
          \<le> unat (output_buffer_size 1920 1080 256)"
    using output_buffer_size_rounds_up [of 1920 1080 256] e by simp
  then show ?thesis by (simp add: output_buffer_size_def align_def)
qed

section \<open>Rate-control negotiation\<close>

lemma unat_double:
  fixes b :: "64 word"
  assumes "unat b < 2 ^ 63"
  shows "unat (2 * b) = 2 * unat b"
proof -
  have "unat (2::64 word) * unat b < 2 ^ LENGTH(64)" using assms by simp
  then have "unat (2 * b) = unat (2::64 word) * unat b"
    by (simp only: unat_mult_lem [THEN iffD1])
  then show ?thesis by simp
qed

lemma unat_min: "unat (min (a::'a::len word) b) = min (unat a) (unat b)"
  by (simp add: min_def word_le_nat_alt)

lemma peak_nat: "min (2 * b) (m::nat) = min (2 * min b m) m"
  by (simp add: min_def)

text \<open>
  C6, as stated, fails: when CBR is advertised the constructor overwrites the
  peak with the average. With CBR, a maximum of 10000000 and a request of
  4000000 the peak is 4000000, not twice the average clamped to the maximum
  (8000000).
\<close>

theorem negotiated_rate_control_counterexample:
  "layer_maxBitrate (rate_control_layer
      (video_encoder_vulkan \<lparr>rateControlModes = eCbr, maxBitrate = 10000000\<rparr> 90000000 4000000))
   \<noteq> min (2 * averageBitrate (rate_control_layer
      (video_encoder_vulkan \<lparr>rateControlModes = eCbr, maxBitrate = 10000000\<rparr> 90000000 4000000)))
        10000000"
  by (simp add: video_encoder_vulkan_def patch_capabilities_def Let_def eCbr_def eVbr_def)

text \<open>
  C6, amended: for every capability report with a nonzero maximum bitrate
  and every requested bitrate, the average bitrate is the minimum of the
  request and the maximum. If CBR is advertised the mode is CBR and the peak
  equals the average; else if VBR is advertised the mode is VBR; in both cases
  the virtual buffer is 5000 ms with 4000 ms initial fill. If neither is
  advertised there is no rate-control configuration (device default). Without
  CBR, and when twice the request fits in 64 bits, the peak is twice the
  average clamped to the maximum. With a maximum of 10000000 and a request of
  20000000 the average and the peak are both 10000000.
\<close>

theorem negotiated_rate_control:
  assumes "maxBitrate caps \<noteq> 0"
  shows "averageBitrate (rate_control_layer (video_encoder_vulkan caps fps bitrate))
           = min bitrate (maxBitrate caps)
       \<and> (rateControlModes caps AND eCbr \<noteq> 0 \<longrightarrow>
            rate_control (video_encoder_vulkan caps fps bitrate)
              = Some \<lparr>rateControlMode = eCbr, layerCount = 1,
                      virtualBufferSizeInMs = 5000, initialVirtualBufferSizeInMs = 4000\<rparr>
            \<and> layer_maxBitrate (rate_control_layer (video_encoder_vulkan caps fps bitrate))
                = min bitrate (maxBitrate caps))
       \<and> (rateControlModes caps AND eCbr = 0 \<and> rateControlModes caps AND eVbr \<noteq> 0 \<longrightarrow>
            rate_control (video_encoder_vulkan caps fps bitrate)
              = Some \<lparr>rateControlMode = eVbr, layerCount = 1,
                      virtualBufferSizeInMs = 5000, initialVirtualBufferSizeInMs = 4000\<rparr>)
       \<and> (rateControlModes caps AND eCbr = 0 \<and> rateControlModes caps AND eVbr = 0 \<longrightarrow>
            rate_control (video_encoder_vulkan caps fps bitrate) = None)
       \<and> (rateControlModes caps AND eCbr = 0 \<and> unat bitrate < 2 ^ 63 \<longrightarrow>
            unat (layer_maxBitrate (rate_control_layer (video_encoder_vulkan caps fps bitrate)))
              = min (2 * unat (min bitrate (maxBitrate caps))) (unat (maxBitrate caps)))
       \<and> (maxBitrate caps = 10000000 \<and> bitrate = 20000000 \<longrightarrow>
            averageBitrate (rate_control_layer (video_encoder_vulkan caps fps bitrate)) = 10000000
            \<and> layer_maxBitrate (rate_control_layer (video_encoder_vulkan caps fps bitrate))
                = 10000000)"
proof -
  have p: "patch_capabilities caps = caps" using assms by (simp add: patch_capabilities_def)
  have pk: "unat bitrate < 2 ^ 63 \<Longrightarrow>
     unat (min (2 * bitrate) (maxBitrate caps))
       = min (2 * unat (min bitrate (maxBitrate caps))) (unat (maxBitrate caps))"
    by (simp only: unat_min unat_double peak_nat [symmetric])
  show ?thesis
    using pk by (auto simp add: video_encoder_vulkan_def p Let_def eDefault_def)
qed

theorem negotiated_rate_control_witness:
  "maxBitrate \<lparr>rateControlModes = eVbr, maxBitrate = 10000000\<rparr> \<noteq> 0
   \<and> rateControlModes \<lparr>rateControlModes = eVbr, maxBitrate = 10000000\<rparr> AND eCbr = 0
   \<and> rateControlModes \<lparr>rateControlModes = eVbr, maxBitrate = 10000000\<rparr> AND eVbr \<noteq> 0
   \<and> unat (4000000 :: 64 word) < 2 ^ 63
   \<and> rate_control
        (video_encoder_vulkan \<lparr>rateControlModes = eVbr, maxBitrate = 10000000\<rparr> 90000000 4000000)
        = Some \<lparr>rateControlMode = eVbr, layerCount = 1,
                virtualBufferSizeInMs = 5000, initialVirtualBufferSizeInMs = 4000\<rparr>
   \<and> averageBitrate (rate_control_layer
        (video_encoder_vulkan \<lparr>rateControlModes = eVbr, maxBitrate = 10000000\<rparr> 90000000 4000000))
        = 4000000
   \<and> unat (layer_maxBitrate (rate_control_layer
        (video_encoder_vulkan \<lparr>rateControlModes = eVbr, maxBitrate = 10000000\<rparr> 90000000 4000000)))
        = 8000000"
  using negotiated_rate_control
          [of "\<lparr>rateControlModes = eVbr, maxBitrate = 10000000\<rparr>" 90000000 4000000]
  by (simp add: eCbr_def eVbr_def)

text \<open>
  C8: for every capability report that advertises CBR or VBR with a maximum
  bitrate of 0, the constructor (a total function: it has no failing branch)
  sets the rate-control modes of its capabilities to the device default and
  ends with no rate-control configuration.
\<close>

theorem inconsistent_caps_downgraded:
  assumes "rateControlModes caps AND (eCbr OR eVbr) \<noteq> 0" and "maxBitrate caps = 0"
  shows "rateControlModes (encode_caps (video_encoder_vulkan caps fps bitrate)) = eDefault
       \<and> rate_control (video_encoder_vulkan caps fps bitrate) = None"
  using assms by (simp add: video_encoder_vulkan_def patch_capabilities_def Let_def eDefault_def)

theorem inconsistent_caps_downgraded_witness:
  "rateControlModes \<lparr>rateControlModes = eCbr OR eVbr, maxBitrate = 0\<rparr> AND (eCbr OR eVbr) \<noteq> 0
   \<and> maxBitrate \<lparr>rateControlModes = eCbr OR eVbr, maxBitrate = 0\<rparr> = 0
   \<and> rateControlModes (encode_caps
        (video_encoder_vulkan \<lparr>rateControlModes = eCbr OR eVbr, maxBitrate = 0\<rparr> 90000000 20000000))
        = eDefault
   \<and> rate_control
        (video_encoder_vulkan \<lparr>rateControlModes = eCbr OR eVbr, maxBitrate = 0\<rparr> 90000000 20000000)
        = None"
  using inconsistent_caps_downgraded
          [of "\<lparr>rateControlModes = eCbr OR eVbr, maxBitrate = 0\<rparr>" 90000000 20000000]
  by (simp add: eCbr_def eVbr_def)

section \<open>Feedback\<close>

text \<open>What the loop does from a value it has just loaded.\<close>

lemma feedback_loop_loaded:
  "feedback_loop spurious fi cur cur =
     (if cur < fi \<and> \<not> (case spurious of [] \<Rightarrow> False | b # _ \<Rightarrow> b) then fi else cur)"
proof (cases "cur < fi \<and> \<not> (case spurious of [] \<Rightarrow> False | b # _ \<Rightarrow> b)")
  case True
  then have ne: "fi \<noteq> cur" by auto
  have "feedback_loop spurious fi cur cur = feedback_loop (drop 1 spurious) fi fi cur"
    using True by (subst feedback_loop.simps) (simp add: compare_exchange_weak_def)
  also have "\<dots> = fi"
    using True ne by (subst feedback_loop.simps) (simp add: compare_exchange_weak_def)
  finally show ?thesis using True by simp
next
  case False
  then show ?thesis
    by (subst feedback_loop.simps) (auto simp add: compare_exchange_weak_def)
qed

lemma last_ack_on_feedback:
  "last_ack (on_feedback spurious fb s)
     = (if sent_to_decoder fb \<and> last_ack s < feedback_frame_index fb
           \<and> \<not> (case spurious of [] \<Rightarrow> False | b # _ \<Rightarrow> b)
        then feedback_frame_index fb else last_ack s)"
  by (simp add: on_feedback_def feedback_loop_loaded)

lemma on_feedback_not_delivered: "\<not> sent_to_decoder fb \<Longrightarrow> on_feedback spurious fb s = s"
  by (simp add: on_feedback_def)

lemma on_feedback_never_decreases: "last_ack s \<le> last_ack (on_feedback spurious fb s)"
  by (auto simp add: last_ack_on_feedback)

lemma on_feedback_without_spurious_failure:
  "last_ack (on_feedback [] fb s)
     = (if sent_to_decoder fb then max (last_ack s) (feedback_frame_index fb) else last_ack s)"
  by (auto simp add: last_ack_on_feedback max_def not_less)

text \<open>
  C5 (the code departs from it): a call of \<open>on_feedback\<close> with
  \<open>sent_to_decoder\<close> true should set \<open>last_ack\<close> to the maximum of its value
  and the acknowledged frame index. The loop of the code goes round while the
  exchange succeeds and leaves when it fails, so it never retries. From
  \<open>last_ack = 0\<close>, the event (5, true) whose first exchange fails spuriously
  leaves \<open>last_ack\<close> at 0, not at the maximum 5, and the events (5, true),
  (3, true), (5, true), each failing so, leave 0 too. Entered with \<open>prev = 0\<close>
  when the stored value has become 3 in between, the loop for frame 7 leaves 3.
\<close>

theorem on_feedback_drops_acknowledgement:
  "last_ack (on_feedback [True] \<lparr>feedback_frame_index = 5, sent_to_decoder = True\<rparr>
      (initial_encoder 2 0)) = 0
   \<and> max (last_ack (initial_encoder 2 0)) 5 = 5
   \<and> last_ack (on_feedback [True] \<lparr>feedback_frame_index = 5, sent_to_decoder = True\<rparr>
        (on_feedback [True] \<lparr>feedback_frame_index = 3, sent_to_decoder = True\<rparr>
          (on_feedback [True] \<lparr>feedback_frame_index = 5, sent_to_decoder = True\<rparr>
            (initial_encoder 2 0)))) = 0
   \<and> feedback_loop [] 7 3 0 = 3"
proof -
  have "feedback_loop [] 7 3 0 = 3"
    by (subst feedback_loop.simps) (simp add: compare_exchange_weak_def)
  then show ?thesis by (simp add: last_ack_on_feedback initial_encoder_def)
qed

section \<open>Frame submission\<close>

subsection \<open>The setup slot and the two loops\<close>

lemma min_fold_key:
  fixes key :: "'a \<Rightarrow> 'b::linorder"
  assumes "n \<le> length xs"
  shows "fold (\<lambda>i best. if key (xs ! i) < key (xs ! best) then i else best) [1..<n] 0 < max n 1
       \<and> (\<forall>j < n. key (xs ! fold (\<lambda>i best. if key (xs ! i) < key (xs ! best) then i else best) [1..<n] 0) \<le> key (xs ! j))
       \<and> (\<forall>j < fold (\<lambda>i best. if key (xs ! i) < key (xs ! best) then i else best) [1..<n] 0.
             key (xs ! fold (\<lambda>i best. if key (xs ! i) < key (xs ! best) then i else best) [1..<n] 0) < key (xs ! j))"
  using assms
proof (induction n)
  case 0
  then show ?case by simp
next
  case (Suc n)
  show ?case
  proof (cases "n = 0")
    case True
    then show ?thesis by simp
  next
    case False
    let ?step = "\<lambda>i best. if key (xs ! i) < key (xs ! best) then i else best"
    let ?b = "fold ?step [1..<n] 0"
    have up: "[1..<Suc n] = [1..<n] @ [n]" using False by simp
    have f: "fold ?step [1..<Suc n] 0 = ?step n ?b" by (simp only: up fold_append) simp
    have ih: "?b < max n 1" "\<forall>j < n. key (xs ! ?b) \<le> key (xs ! j)" "\<forall>j < ?b. key (xs ! ?b) < key (xs ! j)"
      using Suc by simp_all
    have bn: "?b < n" using ih(1) False by simp
    show ?thesis
    proof (cases "key (xs ! n) < key (xs ! ?b)")
      case True
      then have e: "fold ?step [1..<Suc n] 0 = n" using f by simp
      have "\<forall>j < Suc n. key (xs ! n) \<le> key (xs ! j)"
        using True ih(2) by (auto simp: less_Suc_eq intro: less_imp_le order.strict_trans2)
      moreover have "\<forall>j < n. key (xs ! n) < key (xs ! j)"
        using True ih(2) by (auto intro: order.strict_trans2)
      ultimately show ?thesis unfolding e by simp
    next
      case nlt: False
      then have e: "fold ?step [1..<Suc n] 0 = ?b" using f by simp
      have "\<forall>j < Suc n. key (xs ! ?b) \<le> key (xs ! j)"
        using nlt ih(2) by (auto simp: less_Suc_eq not_less)
      then show ?thesis unfolding e using ih(3) bn by simp
    qed
  qed
qed

lemma frame_index_less_key:
  "frame_index_less = (\<lambda>a b. frame_index a + 1 < frame_index b + 1)"
  by (simp add: frame_index_less_def fun_eq_iff)

lemma setup_slot_min:
  assumes "dpb s \<noteq> []"
  shows "setup_slot s < length (dpb s)"
    and "\<forall>j < length (dpb s). frame_index (dpb s ! setup_slot s) + 1 \<le> frame_index (dpb s ! j) + 1"
    and "\<forall>j < setup_slot s. frame_index (dpb s ! setup_slot s) + 1 < frame_index (dpb s ! j) + 1"
proof -
  have l: "max (length (dpb s)) 1 = length (dpb s)" using assms by (cases "dpb s") simp_all
  note m = min_fold_key [of "length (dpb s)" "dpb s" "\<lambda>a. frame_index a + 1", simplified l]
  show "setup_slot s < length (dpb s)"
    using m by (simp add: setup_slot_def min_element_def frame_index_less_key)
  show "\<forall>j < length (dpb s). frame_index (dpb s ! setup_slot s) + 1 \<le> frame_index (dpb s ! j) + 1"
    using m by (simp add: setup_slot_def min_element_def frame_index_less_key)
  show "\<forall>j < setup_slot s. frame_index (dpb s ! setup_slot s) + 1 < frame_index (dpb s ! j) + 1"
    using m by (simp add: setup_slot_def min_element_def frame_index_less_key)
qed

lemma unat_m1: "unat (- 1 :: 64 word) = 2 ^ 64 - 1"
  by (simp add: unsigned_minus_1_eq_mask mask_eq_exp_minus_1)

lemma unat_succ: "x \<noteq> - 1 \<Longrightarrow> unat ((x::64 word) + 1) = Suc (unat x)"
proof -
  assume a: "x \<noteq> - 1"
  have "unat x \<noteq> unat (- 1 :: 64 word)" using a by (simp add: word_unat_eq_iff)
  moreover have "unat x < 2 ^ 64" using unsigned_less [of x, where 'a = nat] by simp
  ultimately have "unat x + unat (1 :: 64 word) < 2 ^ LENGTH(64)" by (simp add: unat_m1)
  then have "unat (x + 1) = unat x + unat (1 :: 64 word)" by (simp only: unat_add_lem [THEN iffD1])
  then show ?thesis by simp
qed

lemma succ_less_iff:
  fixes x y :: "64 word"
  shows "x + 1 < y + 1 \<longleftrightarrow> (x = - 1 \<and> y \<noteq> - 1) \<or> (x \<noteq> - 1 \<and> y \<noteq> - 1 \<and> x < y)"
proof (cases "x = - 1")
  case True
  show ?thesis
  proof (cases "y = - 1")
    case True
    then show ?thesis by simp
  next
    case False
    then have "unat (y + 1) = Suc (unat y)" by (rule unat_succ)
    then have "0 < unat (y + 1)" by simp
    then show ?thesis using \<open>x = - 1\<close> False by (simp add: word_less_nat_alt)
  qed
next
  case xf: False
  then have ux: "unat (x + 1) = Suc (unat x)" by (rule unat_succ)
  show ?thesis
  proof (cases "y = - 1")
    case True
    then show ?thesis by simp
  next
    case False
    then have uy: "unat (y + 1) = Suc (unat y)" by (rule unat_succ)
    show ?thesis using xf False by (simp add: word_less_nat_alt ux uy)
  qed
qed

lemma frame_index_less_iff_less_recent: "frame_index_less a b \<longleftrightarrow> less_recent a b"
  by (simp add: frame_index_less_def less_recent_def succ_less_iff)

lemma ack_scan_Some:
  "ack_scan ack d i = Some r \<Longrightarrow>
     i \<le> r \<and> r < length d \<and> frame_index (d ! r) = ack \<and> slotIndex (info (d ! r)) \<noteq> - 1
     \<and> (\<forall>j. i \<le> j \<and> j < r \<longrightarrow> \<not> (frame_index (d ! j) = ack \<and> slotIndex (info (d ! j)) \<noteq> - 1))"
proof (induction ack d i rule: ack_scan.induct)
  case (1 ack d i)
  note unf = ack_scan.simps [of ack d i]
  show ?case
  proof (cases "i < length d")
    case False
    then show ?thesis using "1.prems" unf by simp
  next
    case il: True
    show ?thesis
    proof (cases "frame_index (d ! i) = ack \<and> slotIndex (info (d ! i)) \<noteq> - 1")
      case True
      then have "r = i" using "1.prems" unf il by simp
      then show ?thesis using True il by auto
    next
      case False
      then have "ack_scan ack d (Suc i) = Some r"
        using "1.prems" unf il by (auto split: if_splits)
      then have ih: "Suc i \<le> r \<and> r < length d \<and> frame_index (d ! r) = ack
         \<and> slotIndex (info (d ! r)) \<noteq> - 1
         \<and> (\<forall>j. Suc i \<le> j \<and> j < r \<longrightarrow>
               \<not> (frame_index (d ! j) = ack \<and> slotIndex (info (d ! j)) \<noteq> - 1))"
        using "1.IH" [OF il False] by blast
      have "\<forall>j. i \<le> j \<and> j < r \<longrightarrow>
              \<not> (frame_index (d ! j) = ack \<and> slotIndex (info (d ! j)) \<noteq> - 1)"
      proof (intro allI impI)
        fix j assume "i \<le> j \<and> j < r"
        then have "j = i \<or> (Suc i \<le> j \<and> j < r)" by auto
        then show "\<not> (frame_index (d ! j) = ack \<and> slotIndex (info (d ! j)) \<noteq> - 1)"
          using False ih by blast
      qed
      then show ?thesis using ih by simp
    qed
  qed
qed

lemma ack_scan_None:
  "ack_scan ack d i = None \<Longrightarrow> i \<le> j \<Longrightarrow> j < length d \<Longrightarrow>
     \<not> (frame_index (d ! j) = ack \<and> slotIndex (info (d ! j)) \<noteq> - 1)"
proof (induction ack d i rule: ack_scan.induct)
  case (1 ack d i)
  note unf = ack_scan.simps [of ack d i]
  have il: "i < length d" using "1.prems" by simp
  have ni: "\<not> (frame_index (d ! i) = ack \<and> slotIndex (info (d ! i)) \<noteq> - 1)"
    using "1.prems"(1) il unf by (cases "frame_index (d ! i) = ack \<and> slotIndex (info (d ! i)) \<noteq> - 1") simp_all
  then have n: "ack_scan ack d (Suc i) = None"
    using "1.prems"(1) il unf by (auto split: if_splits)
  show ?case
  proof (cases "j = i")
    case True
    then show ?thesis using ni by simp
  next
    case False
    then have "Suc i \<le> j" using "1.prems"(2) by simp
    then show ?thesis using "1.IH" [OF il ni n] "1.prems"(3) by blast
  qed
qed

lemma fallback_scan_Some:
  "fallback_scan d i None = Some r \<Longrightarrow>
     i \<le> r \<and> r < length d \<and> slotIndex (info (d ! r)) \<noteq> - 1
     \<and> (\<forall>j. i \<le> j \<and> j < r \<longrightarrow> slotIndex (info (d ! j)) = - 1)"
proof (induction "length d - i" arbitrary: i)
  case 0
  then show ?case using fallback_scan.simps [of d i None] by simp
next
  case (Suc n)
  note unf = fallback_scan.simps [of d i None]
  have il: "i < length d" using Suc.hyps(2) by simp
  show ?case
  proof (cases "slotIndex (info (d ! i)) = - 1")
    case False
    then have "r = i" using Suc.prems unf il by simp
    then show ?thesis using False il by auto
  next
    case True
    then have "fallback_scan d (Suc i) None = Some r" using Suc.prems unf il by simp
    moreover have "n = length d - Suc i" using Suc.hyps(2) by simp
    ultimately have ih: "Suc i \<le> r \<and> r < length d \<and> slotIndex (info (d ! r)) \<noteq> - 1
         \<and> (\<forall>j. Suc i \<le> j \<and> j < r \<longrightarrow> slotIndex (info (d ! j)) = - 1)"
      using Suc.hyps(1) by blast
    have "\<forall>j. i \<le> j \<and> j < r \<longrightarrow> slotIndex (info (d ! j)) = - 1"
    proof (intro allI impI)
      fix j assume "i \<le> j \<and> j < r"
      then have "j = i \<or> (Suc i \<le> j \<and> j < r)" by auto
      then show "slotIndex (info (d ! j)) = - 1"
        using True ih by blast
    qed
    then show ?thesis using ih by simp
  qed
qed

lemma fallback_scan_None:
  "fallback_scan d i None = None \<Longrightarrow> i \<le> j \<Longrightarrow> j < length d \<Longrightarrow> slotIndex (info (d ! j)) = - 1"
proof (induction "length d - i" arbitrary: i)
  case 0
  then show ?case by simp
next
  case (Suc n)
  note unf = fallback_scan.simps [of d i None]
  have il: "i < length d" using Suc.hyps(2) by simp
  have ni: "slotIndex (info (d ! i)) = - 1"
    using Suc.prems(1) il unf by (cases "slotIndex (info (d ! i)) = - 1") simp_all
  then have n: "fallback_scan d (Suc i) None = None" using Suc.prems(1) il unf by simp
  show ?case
  proof (cases "j = i")
    case True
    then show ?thesis using ni by simp
  next
    case False
    then have "Suc i \<le> j" using Suc.prems(2) by simp
    moreover have "n = length d - Suc i" using Suc.hyps(2) by simp
    ultimately show ?thesis using Suc.hyps(1) n Suc.prems(3) by blast
  qed
qed

subsection \<open>The steps of a submission\<close>

lemma dpb_unregister_setup:
  "dpb (unregister_setup s) = (dpb s)[setup_slot s := set_slotIndex (- 1) (dpb s ! setup_slot s)]"
  and last_ack_unregister_setup: "last_ack (unregister_setup s) = last_ack s"
  and frame_num_unregister_setup: "frame_num (unregister_setup s) = frame_num s"
  and length_unregister_setup: "length (dpb (unregister_setup s)) = length (dpb s)"
  by (simp_all add: unregister_setup_def)

lemma unregister_setup_other:
  "j \<noteq> setup_slot s \<Longrightarrow> dpb (unregister_setup s) ! j = dpb s ! j"
  by (simp add: dpb_unregister_setup)

lemma unregister_setup_self:
  "setup_slot s < length (dpb s) \<Longrightarrow>
     slotIndex (info (dpb (unregister_setup s) ! setup_slot s)) = - 1
     \<and> frame_index (dpb (unregister_setup s) ! setup_slot s) = frame_index (dpb s ! setup_slot s)"
  by (simp add: dpb_unregister_setup set_slotIndex_def)

lemma select_reference_Some:
  assumes "select_reference s = Some r"
  shows "r < length (dpb s) \<and> slotIndex (info (dpb s ! r)) \<noteq> - 1"
proof (cases "ack_scan (last_ack s) (dpb s) 0")
  case None
  then have "fallback_scan (dpb s) 0 None = Some r"
    using assms by (simp add: select_reference_def split: if_splits)
  then show ?thesis using fallback_scan_Some by blast
next
  case (Some a)
  then have "a = r" using assms by (simp add: select_reference_def)
  then show ?thesis using ack_scan_Some [OF Some] by simp
qed

lemma select_reference_None_iff:
  "select_reference s = None \<longleftrightarrow>
     (\<forall>j < length (dpb s). \<not> (frame_index (dpb s ! j) = last_ack s \<and> slotIndex (info (dpb s ! j)) \<noteq> - 1))
     \<and> (100 \<le> frame_num s \<or> (\<forall>j < length (dpb s). slotIndex (info (dpb s ! j)) = - 1))"
  (is "?l \<longleftrightarrow> ?a \<and> ?b")
proof
  assume l: ?l
  have a0: "ack_scan (last_ack s) (dpb s) 0 = None"
    using l by (cases "ack_scan (last_ack s) (dpb s) 0") (simp_all add: select_reference_def)
  then have a: ?a using ack_scan_None [OF a0] by blast
  have b: ?b
  proof (cases "frame_num s < 100")
    case True
    then have "fallback_scan (dpb s) 0 None = None" using l a0 by (simp add: select_reference_def)
    then show ?thesis using fallback_scan_None by blast
  next
    case False
    then show ?thesis by (simp add: not_less)
  qed
  show "?a \<and> ?b" using a b by simp
next
  assume r: "?a \<and> ?b"
  have a0: "ack_scan (last_ack s) (dpb s) 0 = None"
  proof (cases "ack_scan (last_ack s) (dpb s) 0")
    case None then show ?thesis .
  next
    case (Some x)
    then show ?thesis using ack_scan_Some [OF Some] r by blast
  qed
  show ?l
  proof (cases "frame_num s < 100")
    case True
    then have nr: "\<forall>j < length (dpb s). slotIndex (info (dpb s ! j)) = - 1" using r by (simp add: not_le [symmetric])
    have "fallback_scan (dpb s) 0 None = None"
    proof (cases "fallback_scan (dpb s) 0 None")
      case None then show ?thesis .
    next
      case (Some x)
      then show ?thesis using fallback_scan_Some [OF Some] nr by blast
    qed
    then show ?thesis using a0 by (simp add: select_reference_def)
  next
    case False
    then show ?thesis using a0 by (simp add: select_reference_def)
  qed
qed

lemma present_image_eq:
  "dpb s \<noteq> [] \<Longrightarrow>
   present_image f s =
     Some (record_submission f (setup_slot s) (select_reference (unregister_setup s))
            (if select_reference (unregister_setup s) = None
             then full_reset (unregister_setup s) else unregister_setup s))"
  by (simp add: present_image_def Let_def)

lemma record_submission_call:
  "snd (record_submission f k ref s) =
     \<lparr>enc_frame_num = frame_num s, slot_index = k,
      ref_slotIndex = map_option (\<lambda>i. slotIndex (info (dpb (fst (record_submission f k ref s)) ! i))) ref,
      ref_slot = ref\<rparr>"
  by (simp add: record_submission_def Let_def)

lemma reset_item_free: "reset_item item = free_item"
  by (simp add: reset_item_def free_item_def)

subsection \<open>The example state\<close>

lemma setup_slot_three_slots: "setup_slot (three_slots n a) = 2"
  by code_simp

lemma present_image_first_frame:
  "present_image 1 (initial_encoder 3 0) =
     Some (\<lparr>dpb = [\<lparr>info = \<lparr>slotIndex = 0, pPictureResource = Some 0\<rparr>, frame_index = 1\<rparr>,
              \<lparr>info = \<lparr>slotIndex = - 1, pPictureResource = None\<rparr>, frame_index = - 1\<rparr>,
              \<lparr>info = \<lparr>slotIndex = - 1, pPictureResource = None\<rparr>, frame_index = - 1\<rparr>],
       frame_num = 1, last_ack = 0, session_initialized = True\<rparr>,
      \<lparr>enc_frame_num = 0, slot_index = 0, ref_slotIndex = None, ref_slot = None\<rparr>)"
  by code_simp

lemma present_image_second_frame:
  "present_image 2
     \<lparr>dpb = [\<lparr>info = \<lparr>slotIndex = 0, pPictureResource = Some 0\<rparr>, frame_index = 1\<rparr>,
              \<lparr>info = \<lparr>slotIndex = - 1, pPictureResource = None\<rparr>, frame_index = - 1\<rparr>,
              \<lparr>info = \<lparr>slotIndex = - 1, pPictureResource = None\<rparr>, frame_index = - 1\<rparr>],
       frame_num = 1, last_ack = 0, session_initialized = True\<rparr>
   = Some (three_slots 2 0,
      \<lparr>enc_frame_num = 1, slot_index = 1, ref_slotIndex = Some 0, ref_slot = Some 0\<rparr>)"
  by code_simp

lemma present_image_third_frame:
  "present_image 3 (three_slots 2 0) =
     Some (\<lparr>dpb = [\<lparr>info = \<lparr>slotIndex = 0, pPictureResource = Some 0\<rparr>, frame_index = 1\<rparr>,
              \<lparr>info = \<lparr>slotIndex = 1, pPictureResource = Some 1\<rparr>, frame_index = 2\<rparr>,
              \<lparr>info = \<lparr>slotIndex = 2, pPictureResource = Some 2\<rparr>, frame_index = 3\<rparr>],
       frame_num = 3, last_ack = 0, session_initialized = True\<rparr>,
      \<lparr>enc_frame_num = 2, slot_index = 2, ref_slotIndex = Some 0, ref_slot = Some 0\<rparr>)"
  by code_simp

lemma run_three_slots: "run 3 [2, 1] (three_slots 2 0)"
proof -
  have 0: "run 3 [] (initial_encoder 3 0)" by (rule run_initial)
  have 1: "run 3 [1]
     \<lparr>dpb = [\<lparr>info = \<lparr>slotIndex = 0, pPictureResource = Some 0\<rparr>, frame_index = 1\<rparr>,
              \<lparr>info = \<lparr>slotIndex = - 1, pPictureResource = None\<rparr>, frame_index = - 1\<rparr>,
              \<lparr>info = \<lparr>slotIndex = - 1, pPictureResource = None\<rparr>, frame_index = - 1\<rparr>],
       frame_num = 1, last_ack = 0, session_initialized = True\<rparr>"
    using 0 _ present_image_first_frame by (rule run_present) simp
  show ?thesis using 1 _ present_image_second_frame by (rule run_present) simp
qed

lemma run_three_slots_acknowledged: "run 3 [2, 1] (three_slots 2 2)"
proof -
  have "on_feedback [] \<lparr>feedback_frame_index = 2, sent_to_decoder = True\<rparr> (three_slots 2 0)
          = three_slots 2 2"
    by (simp add: on_feedback_def feedback_loop_loaded)
  then show ?thesis
    using run_feedback [OF run_three_slots,
            of "[]" "\<lparr>feedback_frame_index = 2, sent_to_decoder = True\<rparr>"]
    by simp
qed

subsection \<open>Setup-slot selection\<close>

text \<open>
  C2: for every submission on a non-empty ring, the setup slot is the
  position \<open>min_element\<close> returns under the comparison of \<open>frame_index + 1\<close>,
  and it is the least recently used slot in the order of the spec: no slot is
  less recent than it (a free slot being less recent than any slot that holds
  a frame), and it is less recent than every slot at a lower position, so ties
  go to the lowest position.
\<close>

theorem setup_slot_is_lru:
  assumes "dpb s \<noteq> []"
  shows "\<exists>s' c. present_image f s = Some (s', c)
           \<and> slot_index c = setup_slot s
           \<and> slot_index c < length (dpb s)
           \<and> (\<forall>j < length (dpb s). \<not> less_recent (dpb s ! j) (dpb s ! slot_index c))
           \<and> (\<forall>j < slot_index c. less_recent (dpb s ! slot_index c) (dpb s ! j))"
proof -
  obtain s' c where r: "present_image f s = Some (s', c)"
    using assms by (cases "record_submission f (setup_slot s) (select_reference (unregister_setup s))
            (if select_reference (unregister_setup s) = None
             then full_reset (unregister_setup s) else unregister_setup s)") (simp add: present_image_eq)
  then have "c = snd (record_submission f (setup_slot s) (select_reference (unregister_setup s))
            (if select_reference (unregister_setup s) = None
             then full_reset (unregister_setup s) else unregister_setup s))"
    using assms by (simp add: present_image_eq)
  then have k: "slot_index c = setup_slot s" by (simp add: record_submission_call)
  have 1: "\<forall>j < length (dpb s). \<not> less_recent (dpb s ! j) (dpb s ! setup_slot s)"
    using setup_slot_min(2) [OF assms]
    by (simp add: frame_index_less_iff_less_recent [symmetric] frame_index_less_def not_less)
  have 2: "\<forall>j < setup_slot s. less_recent (dpb s ! setup_slot s) (dpb s ! j)"
    using setup_slot_min(3) [OF assms]
    by (simp add: frame_index_less_iff_less_recent [symmetric] frame_index_less_def)
  show ?thesis using r k 1 2 setup_slot_min(1) [OF assms] by simp
qed

theorem setup_slot_is_lru_witness:
  "dpb (three_slots 2 0) \<noteq> []
   \<and> map_option (slot_index \<circ> snd) (present_image 3 (three_slots 2 0)) = Some 2
   \<and> less_recent (dpb (three_slots 2 0) ! 2) (dpb (three_slots 2 0) ! 0)
   \<and> \<not> less_recent (dpb (three_slots 2 0) ! 1) (dpb (three_slots 2 0) ! 2)"
proof -
  have ne: "dpb (three_slots 2 0) \<noteq> []" by simp
  obtain s' c where r: "present_image 3 (three_slots 2 0) = Some (s', c)"
    and k: "slot_index c = setup_slot (three_slots 2 0)"
    and a: "\<forall>j < length (dpb (three_slots 2 0)).
              \<not> less_recent (dpb (three_slots 2 0) ! j) (dpb (three_slots 2 0) ! slot_index c)"
    and b: "\<forall>j < slot_index c.
              less_recent (dpb (three_slots 2 0) ! slot_index c) (dpb (three_slots 2 0) ! j)"
    using setup_slot_is_lru [OF ne, of 3] by blast
  have k2: "slot_index c = 2" using k by (simp only: setup_slot_three_slots)
  have "less_recent (dpb (three_slots 2 0) ! 2) (dpb (three_slots 2 0) ! 0)"
    using b [unfolded k2, rule_format, of 0] by simp
  moreover have "\<not> less_recent (dpb (three_slots 2 0) ! 1) (dpb (three_slots 2 0) ! 2)"
    using a [unfolded k2, rule_format, of 1] by simp
  ultimately show ?thesis using r k2 by simp
qed

subsection \<open>Reference selection\<close>

text \<open>
  C10: in every submission that chooses a prediction reference, the
  reference is not the setup slot of that submission: after the setup slot is
  unregistered its slot index is \<open>-1\<close>, and the chosen reference is a slot that
  is registered then (and was before).
\<close>

theorem reference_is_not_setup_slot:
  assumes "present_image f s = Some (s', c)" and "ref_slot c = Some i"
  shows "i \<noteq> slot_index c
       \<and> i < length (dpb s)
       \<and> slotIndex (info (dpb (unregister_setup s) ! slot_index c)) = - 1
       \<and> slotIndex (info (dpb (unregister_setup s) ! i)) \<noteq> - 1
       \<and> slotIndex (info (dpb s ! i)) \<noteq> - 1"
proof -
  have ne: "dpb s \<noteq> []" using assms(1) by (auto simp: present_image_def split: if_splits)
  have "c = snd (record_submission f (setup_slot s) (select_reference (unregister_setup s))
            (if select_reference (unregister_setup s) = None
             then full_reset (unregister_setup s) else unregister_setup s))"
    using assms(1) ne by (simp add: present_image_eq)
  then have k: "slot_index c = setup_slot s"
    and r: "select_reference (unregister_setup s) = Some i"
    using assms(2) by (simp_all add: record_submission_call)
  have kl: "setup_slot s < length (dpb s)" using setup_slot_min(1) [OF ne] .
  have reg: "i < length (dpb s)" "slotIndex (info (dpb (unregister_setup s) ! i)) \<noteq> - 1"
    using select_reference_Some [OF r] by (simp_all add: length_unregister_setup)
  have un: "slotIndex (info (dpb (unregister_setup s) ! setup_slot s)) = - 1"
    using unregister_setup_self [OF kl] by simp
  have "i \<noteq> setup_slot s" using reg(2) un by auto
  then show ?thesis using reg un k by (simp add: unregister_setup_other)
qed

theorem reference_is_not_setup_slot_witness:
  "map_option snd (present_image 3 (three_slots 2 0))
     = Some \<lparr>enc_frame_num = 2, slot_index = 2, ref_slotIndex = Some 0, ref_slot = Some 0\<rparr>
   \<and> (0 :: nat) \<noteq> 2
   \<and> slotIndex (info (dpb (three_slots 2 0) ! 0)) \<noteq> - 1"
proof -
  have r: "map_option snd (present_image 3 (three_slots 2 0))
     = Some \<lparr>enc_frame_num = 2, slot_index = 2, ref_slotIndex = Some 0, ref_slot = Some 0\<rparr>"
    by (simp only: present_image_third_frame option.map snd_conv)
  have "(0 :: nat) \<noteq> 2 \<and> slotIndex (info (dpb (three_slots 2 0) ! 0)) \<noteq> - 1"
    using reference_is_not_setup_slot [OF present_image_third_frame, where i = 0] by simp
  then show ?thesis using r by blast
qed

text \<open>
  C4: for every submission on a non-empty ring where, leaving the setup slot
  aside, either the counter is at least 100 and no registered slot holds the
  last acknowledged frame, or no slot is registered, the submission goes
  through the full reset of the state with the setup slot unregistered: every
  slot is then free and unregistered and the counter is 0. The frame is
  recorded on that state with no reference and frame number 0; afterwards the
  counter is 1 and every slot but the setup slot is free.
\<close>

theorem full_reset_when_no_reference:
  assumes "dpb s \<noteq> []"
    and "(100 \<le> frame_num s
          \<and> (\<forall>j < length (dpb s). j \<noteq> setup_slot s \<longrightarrow>
                \<not> (frame_index (dpb s ! j) = last_ack s \<and> slotIndex (info (dpb s ! j)) \<noteq> - 1)))
         \<or> (\<forall>j < length (dpb s). j \<noteq> setup_slot s \<longrightarrow> slotIndex (info (dpb s ! j)) = - 1)"
  shows "\<exists>s' c. present_image f s = Some (s', c)
           \<and> (s', c) = record_submission f (setup_slot s) None (full_reset (unregister_setup s))
           \<and> dpb (full_reset (unregister_setup s)) = replicate (length (dpb s)) free_item
           \<and> frame_num (full_reset (unregister_setup s)) = 0
           \<and> ref_slot c = None \<and> ref_slotIndex c = None \<and> enc_frame_num c = 0
           \<and> frame_num s' = 1
           \<and> (\<forall>j < length (dpb s). j \<noteq> setup_slot s \<longrightarrow> dpb s' ! j = free_item)"
proof -
  have kl: "setup_slot s < length (dpb s)" using setup_slot_min(1) [OF assms(1)] .
  have un: "slotIndex (info (dpb (unregister_setup s) ! setup_slot s)) = - 1"
    using unregister_setup_self [OF kl] by simp
  have a: "\<forall>j < length (dpb (unregister_setup s)).
             \<not> (frame_index (dpb (unregister_setup s) ! j) = last_ack (unregister_setup s)
                \<and> slotIndex (info (dpb (unregister_setup s) ! j)) \<noteq> - 1)"
  proof (intro allI impI)
    fix j assume "j < length (dpb (unregister_setup s))"
    then have jl: "j < length (dpb s)" by (simp add: length_unregister_setup)
    show "\<not> (frame_index (dpb (unregister_setup s) ! j) = last_ack (unregister_setup s)
                \<and> slotIndex (info (dpb (unregister_setup s) ! j)) \<noteq> - 1)"
    proof (cases "j = setup_slot s")
      case True
      then show ?thesis using un by simp
    next
      case False
      then show ?thesis using assms(2) jl
        by (auto simp: unregister_setup_other last_ack_unregister_setup)
    qed
  qed
  have b: "100 \<le> frame_num (unregister_setup s)
           \<or> (\<forall>j < length (dpb (unregister_setup s)). slotIndex (info (dpb (unregister_setup s) ! j)) = - 1)"
  proof (cases "100 \<le> frame_num s")
    case True
    then show ?thesis by (simp add: frame_num_unregister_setup)
  next
    case False
    then have nr: "\<forall>j < length (dpb s). j \<noteq> setup_slot s \<longrightarrow> slotIndex (info (dpb s ! j)) = - 1"
      using assms(2) by blast
    have "\<forall>j < length (dpb (unregister_setup s)). slotIndex (info (dpb (unregister_setup s) ! j)) = - 1"
    proof (intro allI impI)
      fix j assume "j < length (dpb (unregister_setup s))"
      then have jl: "j < length (dpb s)" by (simp add: length_unregister_setup)
      show "slotIndex (info (dpb (unregister_setup s) ! j)) = - 1"
        using un nr jl by (cases "j = setup_slot s") (simp_all add: unregister_setup_other)
    qed
    then show ?thesis by simp
  qed
  have sel: "select_reference (unregister_setup s) = None"
    using a b by (simp only: select_reference_None_iff)
  have p: "present_image f s
             = Some (record_submission f (setup_slot s) None (full_reset (unregister_setup s)))"
    using assms(1) sel by (simp add: present_image_eq)
  have ri: "reset_item = (\<lambda>item. free_item)" by (simp add: fun_eq_iff reset_item_free)
  have "map reset_item (dpb (unregister_setup s))
          = replicate (length (dpb (unregister_setup s))) free_item"
    unfolding ri by (rule map_replicate_const)
  then have d: "dpb (full_reset (unregister_setup s)) = replicate (length (dpb s)) free_item"
    by (simp add: full_reset_def length_unregister_setup)
  have fn: "frame_num (full_reset (unregister_setup s)) = 0" by (simp add: full_reset_def)
  obtain s' c where sc: "record_submission f (setup_slot s) None (full_reset (unregister_setup s)) = (s', c)"
    by (cases "record_submission f (setup_slot s) None (full_reset (unregister_setup s))")
  have c: "ref_slot c = None \<and> ref_slotIndex c = None \<and> enc_frame_num c = 0"
    using sc fn record_submission_call [of f "setup_slot s" None "full_reset (unregister_setup s)"]
    by simp
  have s': "frame_num s' = 1" using sc fn by (auto simp: record_submission_def Let_def)
  have o: "\<forall>j < length (dpb s). j \<noteq> setup_slot s \<longrightarrow> dpb s' ! j = free_item"
    using sc d by (auto simp: record_submission_def Let_def)
  show ?thesis using p sc d fn c s' o by simp
qed

theorem full_reset_when_no_reference_witness:
  "dpb (three_slots 100 0) \<noteq> []
   \<and> 100 \<le> frame_num (three_slots 100 0)
   \<and> map_option snd (present_image 3 (three_slots 100 0))
       = Some \<lparr>enc_frame_num = 0, slot_index = 2, ref_slotIndex = None, ref_slot = None\<rparr>
   \<and> map_option (frame_num \<circ> fst) (present_image 3 (three_slots 100 0)) = Some 1"
proof -
  have ne: "dpb (three_slots 100 0) \<noteq> []" by simp
  have n: "\<forall>j < length (dpb (three_slots 100 0)). j \<noteq> setup_slot (three_slots 100 0) \<longrightarrow>
             \<not> (frame_index (dpb (three_slots 100 0) ! j) = last_ack (three_slots 100 0)
                \<and> slotIndex (info (dpb (three_slots 100 0) ! j)) \<noteq> - 1)"
  proof (intro allI impI)
    fix j assume jl: "j < length (dpb (three_slots 100 0))"
      and jk: "j \<noteq> setup_slot (three_slots 100 0)"
    have "j < 3" using jl by simp
    moreover have "j \<noteq> 2" using jk by (simp only: setup_slot_three_slots) simp
    ultimately have "j = 0 \<or> j = 1" by arith
    then show "\<not> (frame_index (dpb (three_slots 100 0) ! j) = last_ack (three_slots 100 0)
                \<and> slotIndex (info (dpb (three_slots 100 0) ! j)) \<noteq> - 1)"
      by auto
  qed
  have h: "(100 \<le> frame_num (three_slots 100 0)
          \<and> (\<forall>j < length (dpb (three_slots 100 0)). j \<noteq> setup_slot (three_slots 100 0) \<longrightarrow>
                \<not> (frame_index (dpb (three_slots 100 0) ! j) = last_ack (three_slots 100 0)
                   \<and> slotIndex (info (dpb (three_slots 100 0) ! j)) \<noteq> - 1)))
         \<or> (\<forall>j < length (dpb (three_slots 100 0)). j \<noteq> setup_slot (three_slots 100 0) \<longrightarrow>
                slotIndex (info (dpb (three_slots 100 0) ! j)) = - 1)"
    using n by simp
  obtain s' c where r: "present_image 3 (three_slots 100 0) = Some (s', c)"
    and e: "(s', c) = record_submission 3 (setup_slot (three_slots 100 0)) None
                        (full_reset (unregister_setup (three_slots 100 0)))"
    and c: "ref_slot c = None" "ref_slotIndex c = None" "enc_frame_num c = 0"
    and f: "frame_num s' = 1"
    using full_reset_when_no_reference [OF ne h, of 3] by blast
  have "slot_index c = 2"
    using e record_submission_call [of 3 "setup_slot (three_slots 100 0)" None
                        "full_reset (unregister_setup (three_slots 100 0))"]
    by (metis setup_slot_three_slots snd_conv submission.select_convs(2))
  then have "c = \<lparr>enc_frame_num = 0, slot_index = 2, ref_slotIndex = None, ref_slot = None\<rparr>"
    using c by (cases c) simp
  then show ?thesis using r f by simp
qed

text \<open>
  C1 (the code departs from it): on three slots, after the frames 1 and 2
  were submitted and neither was acknowledged, the submission of frame 3 finds
  no slot holding the last acknowledged frame, the counter is 2 and the slots 0
  and 1 are registered. The second loop leaves at the first registered slot:
  the reference is slot 0, which holds frame 1, although the registered slot 1
  holds the greater frame index 2. No full reset occurs.
\<close>

theorem fallback_takes_first_registered:
  "map_option snd (present_image 3 (three_slots 2 (- 1)))
     = Some \<lparr>enc_frame_num = 2, slot_index = 2, ref_slotIndex = Some 0, ref_slot = Some 0\<rparr>
   \<and> frame_index (dpb (three_slots 2 (- 1)) ! 0) = 1
   \<and> frame_index (dpb (three_slots 2 (- 1)) ! 1) = 2
   \<and> slotIndex (info (dpb (three_slots 2 (- 1)) ! 1)) = 1
   \<and> map_option snd (present_image 3 (three_slots 2 0))
     = Some \<lparr>enc_frame_num = 2, slot_index = 2, ref_slotIndex = Some 0, ref_slot = Some 0\<rparr>"
  by code_simp

subsection \<open>Reachable states\<close>

lemma dpb_on_feedback: "dpb (on_feedback spurious fb s) = dpb s"
  by (simp add: on_feedback_def)

lemma present_image_dpb:
  assumes "present_image f s = Some (s', c)"
  shows "length (dpb s') = length (dpb s)"
    and "setup_slot s < length (dpb s)"
    and "frame_index (dpb s' ! setup_slot s) = f"
    and "slotIndex (info (dpb s' ! setup_slot s)) = of_nat (setup_slot s)"
    and "\<forall>j < length (dpb s). j \<noteq> setup_slot s \<longrightarrow> dpb s' ! j = dpb s ! j \<or> dpb s' ! j = free_item"
proof -
  have ne: "dpb s \<noteq> []" using assms by (auto simp: present_image_def split: if_splits)
  show kl: "setup_slot s < length (dpb s)" using setup_slot_min(1) [OF ne] .
  let ?s2 = "if select_reference (unregister_setup s) = None
             then full_reset (unregister_setup s) else unregister_setup s"
  have s': "s' = fst (record_submission f (setup_slot s) (select_reference (unregister_setup s)) ?s2)"
    using assms ne by (simp add: present_image_eq)
  have l2: "length (dpb ?s2) = length (dpb s)"
    by (simp add: full_reset_def length_unregister_setup)
  show "length (dpb s') = length (dpb s)"
    unfolding s' using l2 by (simp add: record_submission_def Let_def)
  show "frame_index (dpb s' ! setup_slot s) = f"
    unfolding s' using l2 kl by (simp add: record_submission_def Let_def set_slotIndex_def)
  show "slotIndex (info (dpb s' ! setup_slot s)) = of_nat (setup_slot s)"
    unfolding s' using l2 kl by (simp add: record_submission_def Let_def set_slotIndex_def)
  have o2: "\<forall>j < length (dpb s). j \<noteq> setup_slot s \<longrightarrow> dpb ?s2 ! j = dpb s ! j \<or> dpb ?s2 ! j = free_item"
    by (simp add: full_reset_def length_unregister_setup unregister_setup_other reset_item_free)
  show "\<forall>j < length (dpb s). j \<noteq> setup_slot s \<longrightarrow> dpb s' ! j = dpb s ! j \<or> dpb s' ! j = free_item"
    unfolding s' using o2 by (simp add: record_submission_def Let_def)
qed

lemma run_invariant:
  assumes "run n fs s"
  shows "length (dpb s) = n
       \<and> (\<forall>i < n. frame_index (dpb s ! i) \<noteq> - 1 \<longrightarrow>
             slotIndex (info (dpb s ! i)) = of_nat i \<and> frame_index (dpb s ! i) \<in> set fs)
       \<and> (\<forall>i < n. \<forall>j < n. frame_index (dpb s ! i) \<noteq> - 1
             \<and> frame_index (dpb s ! i) = frame_index (dpb s ! j) \<longrightarrow> i = j)"
  using assms
proof (induction rule: run.induct)
  case (run_initial n ack0)
  then show ?case by (simp add: initial_encoder_def free_item_def)
next
  case (run_feedback n fs s spurious fb)
  show ?case unfolding dpb_on_feedback by (rule run_feedback.IH)
next
  case (run_present n fs s f s' c)
  note p = present_image_dpb [OF run_present.hyps(3)]
  let ?k = "setup_slot s"
  have len: "length (dpb s) = n" using run_present.IH by simp
  have held: "\<And>i. i < n \<Longrightarrow> frame_index (dpb s ! i) \<noteq> - 1 \<Longrightarrow>
                slotIndex (info (dpb s ! i)) = of_nat i \<and> frame_index (dpb s ! i) \<in> set fs"
    using run_present.IH by blast
  have inj: "\<And>i j. i < n \<Longrightarrow> j < n \<Longrightarrow> frame_index (dpb s ! i) \<noteq> - 1 \<Longrightarrow>
                frame_index (dpb s ! i) = frame_index (dpb s ! j) \<Longrightarrow> i = j"
    using run_present.IH by blast
  have other: "\<And>j. j < n \<Longrightarrow> j \<noteq> ?k \<Longrightarrow> frame_index (dpb s' ! j) \<noteq> - 1 \<Longrightarrow> dpb s' ! j = dpb s ! j"
    using p(5) len by (auto simp: free_item_def)
  have old: "\<And>j. j < n \<Longrightarrow> j \<noteq> ?k \<Longrightarrow> frame_index (dpb s' ! j) \<noteq> - 1 \<Longrightarrow>
                frame_index (dpb s' ! j) \<in> set fs \<and> frame_index (dpb s' ! j) \<noteq> f"
  proof -
    fix j assume j: "j < n" "j \<noteq> ?k" "frame_index (dpb s' ! j) \<noteq> - 1"
    then have e: "dpb s' ! j = dpb s ! j" by (rule other)
    then have "frame_index (dpb s' ! j) \<in> set fs" using held [of j] j by simp
    then show "frame_index (dpb s' ! j) \<in> set fs \<and> frame_index (dpb s' ! j) \<noteq> f"
      using run_present.hyps(2) by auto
  qed
  have 1: "length (dpb s') = n" using p(1) len by simp
  have 2: "\<forall>i < n. frame_index (dpb s' ! i) \<noteq> - 1 \<longrightarrow>
             slotIndex (info (dpb s' ! i)) = of_nat i \<and> frame_index (dpb s' ! i) \<in> set (f # fs)"
  proof (intro allI impI)
    fix i assume i: "i < n" "frame_index (dpb s' ! i) \<noteq> - 1"
    show "slotIndex (info (dpb s' ! i)) = of_nat i \<and> frame_index (dpb s' ! i) \<in> set (f # fs)"
    proof (cases "i = ?k")
      case True
      then show ?thesis using p(3,4) by simp
    next
      case False
      then have "dpb s' ! i = dpb s ! i" using other i by blast
      then show ?thesis using held [of i] i by simp
    qed
  qed
  have 3: "\<forall>i < n. \<forall>j < n. frame_index (dpb s' ! i) \<noteq> - 1
             \<and> frame_index (dpb s' ! i) = frame_index (dpb s' ! j) \<longrightarrow> i = j"
  proof (intro allI impI)
    fix i j assume i: "i < n" and j: "j < n"
      and e: "frame_index (dpb s' ! i) \<noteq> - 1 \<and> frame_index (dpb s' ! i) = frame_index (dpb s' ! j)"
    show "i = j"
    proof (cases "i = ?k")
      case ik: True
      show ?thesis
      proof (cases "j = ?k")
        case True
        then show ?thesis using ik by simp
      next
        case False
        then show ?thesis using old [of j] j e ik p(3) by auto
      qed
    next
      case ik: False
      show ?thesis
      proof (cases "j = ?k")
        case True
        then show ?thesis using old [of i] i e ik p(3) by auto
      next
        case False
        have fi: "frame_index (dpb s' ! i) \<noteq> - 1" and fj: "frame_index (dpb s' ! j) \<noteq> - 1"
          using e by auto
        have "dpb s' ! i = dpb s ! i" using i ik fi by (rule other)
        moreover have "dpb s' ! j = dpb s ! j" using j False fj by (rule other)
        ultimately show ?thesis using inj [of i j] i j e by auto
      qed
    qed
  qed
  show ?case using 1 2 3 by simp
qed

lemma of_nat_ne_m1: "i < 2 ^ 32 - 1 \<Longrightarrow> (of_nat i :: 32 word) \<noteq> - 1"
proof
  assume a: "i < 2 ^ 32 - 1" and e: "(of_nat i :: 32 word) = - 1"
  have "unat (of_nat i :: 32 word) = i" using a by (simp add: unat_of_nat)
  moreover have "unat (- 1 :: 32 word) = 2 ^ 32 - 1"
    by (simp add: unsigned_minus_1_eq_mask mask_eq_exp_minus_1)
  ultimately show False using a e by simp
qed

text \<open>
  C3: in a state the encoder reaches with at least two slots (and fewer
  than \<open>2 ^ 32\<close>), when frame \<open>F + 1\<close> is submitted after frames of smaller index
  only, \<open>last_ack\<close> is \<open>F\<close> and slot \<open>i\<close> holds frame \<open>F\<close> (a frame, not the
  free sentinel), the submission returns and its prediction reference is
  slot \<open>i\<close>.
\<close>

theorem acknowledged_frame_is_reference:
  assumes "run n fs s" and "2 \<le> n" and "n < 2 ^ 32"
    and "\<forall>g \<in> set fs. g < F + 1"
    and "F \<noteq> - 1"
    and "last_ack s = F"
    and "i < n" and "frame_index (dpb s ! i) = F"
  shows "\<exists>s' c. present_image (F + 1) s = Some (s', c) \<and> ref_slot c = Some i"
proof -
  note inv = run_invariant [OF assms(1)]
  have len: "length (dpb s) = n" using inv by simp
  have ne: "dpb s \<noteq> []" using len assms(2) by auto
  let ?k = "setup_slot s"
  note m = setup_slot_min [OF ne]
  have reg: "slotIndex (info (dpb s ! i)) = of_nat i" using inv assms(5,7,8) by blast
  have regd: "slotIndex (info (dpb s ! i)) \<noteq> - 1"
    using reg of_nat_ne_m1 [of i] assms(3,7) by simp
  have uF: "unat (F + 1) = Suc (unat F)" using assms(5) by (rule unat_succ)
  have ik: "i \<noteq> ?k"
  proof
    assume e: "i = ?k"
    define j where "j = (if i = 0 then 1 else 0 :: nat)"
    have j: "j < n" "j \<noteq> i" using assms(2) by (simp_all add: j_def)
    have le: "F + 1 \<le> frame_index (dpb s ! j) + 1" using m(2) j(1) len e assms(8) by auto
    show False
    proof (cases "frame_index (dpb s ! j) = - 1")
      case True
      then show ?thesis using le uF by (simp add: word_le_nat_alt)
    next
      case False
      then have "frame_index (dpb s ! j) \<in> set fs" using inv j(1) by blast
      then have lt: "frame_index (dpb s ! j) < F + 1" using assms(4) by blast
      have "frame_index (dpb s ! j) \<noteq> F" using inv j assms(7,8) False by metis
      moreover have "unat (frame_index (dpb s ! j) + 1) = Suc (unat (frame_index (dpb s ! j)))"
        using False by (rule unat_succ)
      ultimately show ?thesis using le lt uF
        by (simp add: word_le_nat_alt word_less_nat_alt word_unat_eq_iff)
    qed
  qed
  let ?u = "unregister_setup s"
  have ui: "dpb ?u ! i = dpb s ! i" using ik by (simp add: unregister_setup_other)
  have "ack_scan (last_ack ?u) (dpb ?u) 0 \<noteq> None"
  proof
    assume "ack_scan (last_ack ?u) (dpb ?u) 0 = None"
    then have "\<not> (frame_index (dpb ?u ! i) = last_ack ?u \<and> slotIndex (info (dpb ?u ! i)) \<noteq> - 1)"
      using assms(7) len by (intro ack_scan_None [where i = 0]) (simp_all add: length_unregister_setup)
    then show False using ui regd assms(6,8) by (simp add: last_ack_unregister_setup)
  qed
  then obtain r where r: "ack_scan (last_ack ?u) (dpb ?u) 0 = Some r" by blast
  note rs = ack_scan_Some [OF r]
  have rl: "r < n" using rs len by (simp add: length_unregister_setup)
  have rk: "r \<noteq> ?k" using rs unregister_setup_self [OF m(1)] by auto
  then have "frame_index (dpb s ! r) = F"
    using rs assms(6) by (simp add: unregister_setup_other last_ack_unregister_setup)
  then have "r = i" using inv rl assms(5,7,8) by metis
  then have sel: "select_reference ?u = Some i" using r by (simp add: select_reference_def)
  obtain s' c where sc: "record_submission (F + 1) ?k (Some i) ?u = (s', c)"
    by (cases "record_submission (F + 1) ?k (Some i) ?u")
  then have "ref_slot c = Some i"
    using record_submission_call [of "F + 1" ?k "Some i" ?u] by simp
  then show ?thesis using ne sel sc by (simp add: present_image_eq)
qed

theorem acknowledged_frame_is_reference_witness:
  "run 3 [2, 1] (three_slots 2 2)
   \<and> last_ack (three_slots 2 2) = 2
   \<and> frame_index (dpb (three_slots 2 2) ! 1) = 2
   \<and> map_option (ref_slot \<circ> snd) (present_image 3 (three_slots 2 2)) = Some (Some 1)"
proof -
  have "\<exists>s' c. present_image (2 + 1) (three_slots 2 2) = Some (s', c) \<and> ref_slot c = Some 1"
    using acknowledged_frame_is_reference [OF run_three_slots_acknowledged, of 2 1] by simp
  then show ?thesis using run_three_slots_acknowledged by auto
qed

section \<open>Retrieving the encoded result\<close>

text \<open>
  C7, as stated, fails: when the wait for the fence succeeds and the query
  read-back returns \<open>eNotReady\<close>, the call writes a line to \<open>cerr\<close> and
  returns the span; no error reaches the caller.
\<close>

theorem encode_query_failure_counterexample:
  "outcome (encode False eSuccess (eNotReady, 0, 16, 0)) = Inr \<lparr>span_offset = 0, span_size = 16\<rparr>"
  by (simp add: encode_def)

text \<open>
  C7, amended: a result other than success from the wait for the fence
  makes the call throw a runtime error that names the result; when that wait
  succeeds the call returns the span at the offset and of the size the query
  returned, and a result other than success from the query read-back is
  written to \<open>cerr\<close> only.
\<close>

theorem encode_propagates_wait_failure:
  "(wait_res \<noteq> eSuccess \<longrightarrow>
      outcome (encode idr wait_res (query_res, offset, sz, overrides))
        = Inl (runtime_error (''wait for fences: '' @ to_string wait_res)))
   \<and> (wait_res = eSuccess \<longrightarrow>
      outcome (encode idr wait_res (query_res, offset, sz, overrides))
        = Inr \<lparr>span_offset = offset, span_size = sz\<rparr>
      \<and> cerr (encode idr wait_res (query_res, offset, sz, overrides))
        = (if query_res \<noteq> eSuccess
           then [''device.getQueryPoolResults: '' @ to_string query_res] else []))"
  by (simp add: encode_def)

theorem encode_propagates_wait_failure_witness:
  "eTimeout \<noteq> eSuccess
   \<and> outcome (encode False eTimeout (eSuccess, 0, 16, 0))
       = Inl (runtime_error ''wait for fences: Timeout'')"
  using encode_propagates_wait_failure [of eTimeout False eSuccess 0 16 0] by simp

end
